theory Spec2Isabelle
  imports Main
begin

section \<open>JavaScript values\<close>

text \<open>
  The fields \<open>id\<close>, \<open>state\<close> and \<open>delay\<close> of an AsyncAction are untyped (\<open>?\<close> in the
  JSDoc), so they hold arbitrary JavaScript values. Numbers are the integers and NaN
  (the one number that is not \<open>===\<close> to itself); objects are known by reference only.
\<close>

datatype jsval =
    JUndefined
  | JNull
  | JBool bool
  | JNum int
  | JNaN
  | JStr string
  | JObj nat

text \<open>ToBoolean, as \<open>!!e\<close>, \<open>a || b\<close> and \<open>if (error)\<close> apply it.\<close>

fun truthy :: "jsval \<Rightarrow> bool" where
  "truthy JUndefined = False"
| "truthy JNull = False"
| "truthy (JBool b) = b"
| "truthy (JNum n) = (n \<noteq> 0)"
| "truthy JNaN = False"
| "truthy (JStr s) = (s \<noteq> [])"
| "truthy (JObj r) = True"

text \<open>\<open>a === b\<close>: same type and same value, objects by reference, NaN equal to nothing.\<close>

definition strict_eq :: "jsval \<Rightarrow> jsval \<Rightarrow> bool" where
  "strict_eq a b = (a = b \<and> a \<noteq> JNaN)"

text \<open>\<open>v != null\<close>: loose inequality, false for both \<open>null\<close> and \<open>undefined\<close>.\<close>

definition not_null :: "jsval \<Rightarrow> bool" where
  "not_null v = (v \<noteq> JNull \<and> v \<noteq> JUndefined)"

text \<open>A default parameter (\<open>delay = 0\<close>) replaces \<open>undefined\<close> only; \<open>null\<close> passes through.\<close>

definition default_param :: "jsval \<Rightarrow> jsval \<Rightarrow> jsval" where
  "default_param v dflt = (if v = JUndefined then dflt else v)"

text \<open>
  What \<open>execute\<close> and \<open>_execute\<close> hand back, and what a \<open>catch\<close> receives: a plain value,
  the TypeError object the engine raises on a property access through \<open>null\<close>, or the
  object built by \<open>new Error(arg)\<close>.
\<close>

datatype retval =
    Plain jsval
  | TypeErrorObj
  | NewError retval

fun truthy_ret :: "retval \<Rightarrow> bool" where
  "truthy_ret (Plain v) = truthy v"
| "truthy_ret TypeErrorObj = True"
| "truthy_ret (NewError a) = True"

text \<open>A call either returns a value or throws one; the state it leaves is kept either way.\<close>

datatype 'a completion = Returns 'a | Throws retval

section \<open>The timer facility of the runtime\<close>

text \<open>
  Modelled from the spec: \<open>root\<close> (imported from \<open>../util/root\<close>) is the global object, whose
  \<open>setInterval\<close> and \<open>clearInterval\<close> are the runtime's "setRepeatingTimer(callback, period)
  \<rightarrow> handle" and "cancelTimer(handle)". Handles are the positive integers in the order of
  issue; \<open>issued\<close> counts the calls of \<open>setInterval\<close> so far. Clearing a handle that is not
  registered does nothing.
\<close>

record callback =
  flush_scheduler :: nat
  flush_action :: nat

record interval =
  handle :: nat
  fires :: callback
  period :: jsval

record runtime =
  issued :: nat
  intervals :: "interval list"

definition setInterval :: "callback \<Rightarrow> jsval \<Rightarrow> runtime \<Rightarrow> jsval \<times> runtime" where
  "setInterval cb d r =
     (let h = Suc (issued r)
      in (JNum (int h),
          r\<lparr>issued := h, intervals := intervals r @ [\<lparr>handle = h, fires = cb, period = d\<rparr>]\<rparr>))"

definition clearInterval :: "jsval \<Rightarrow> runtime \<Rightarrow> runtime" where
  "clearInterval v r = r\<lparr>intervals := filter (\<lambda>t. JNum (int (handle t)) \<noteq> v) (intervals r)\<rparr>"

section \<open>Work\<close>

text \<open>
  The user's callback \<open>work\<close> runs with \<open>this\<close> bound to its action. It reaches the action
  through the public surface only: it may read the observable fields, call
  \<open>this.schedule(state, delay)\<close> and \<open>this.unsubscribe()\<close>, and it ends by returning or by
  throwing a value.
\<close>

record view =
  seen_closed :: bool
  seen_pending :: bool
  seen_id :: jsval
  seen_delay :: jsval
  seen_state :: jsval

datatype prog =
    Return
  | Raise jsval
  | CallSchedule jsval jsval prog
  | CallUnsubscribe prog
  | Observe "view \<Rightarrow> prog"

section \<open>The action and its world\<close>

text \<open>
  \<open>closed\<close> is the field of the base class; the others are AsyncAction's own. References to
  schedulers and to actions are natural numbers; \<open>None\<close> is \<open>null\<close>.
\<close>

record action =
  scheduler :: "nat option"
  work :: "(jsval \<Rightarrow> prog) option"
  closed :: bool
  id_t :: jsval
  state :: jsval
  delay :: jsval
  pending :: bool

text \<open>
  The world an action lives in: the action object \<open>this\<close> and its reference \<open>self\<close>, the
  \<open>actions\<close> array of every scheduler, the runtime's timers, and the log of the arguments
  \<open>work\<close> has been invoked with.
\<close>

record world =
  this :: action
  self :: nat
  actions :: "nat \<Rightarrow> nat list"
  rt :: runtime
  invoked :: "jsval list"

text \<open>The constructor: \<open>super(scheduler, work)\<close> leaves \<open>closed\<close> false; no other field is set.\<close>

definition AsyncAction :: "nat option \<Rightarrow> (jsval \<Rightarrow> prog) option \<Rightarrow> action" where
  "AsyncAction sch wk =
     \<lparr>scheduler = sch, work = wk, closed = False, id_t = JUndefined,
      state = JUndefined, delay = JUndefined, pending = False\<rparr>"

definition observe :: "world \<Rightarrow> view" where
  "observe w =
     \<lparr>seen_closed = closed (this w), seen_pending = pending (this w), seen_id = id_t (this w),
      seen_delay = delay (this w), seen_state = state (this w)\<rparr>"

section \<open>AsyncAction.js\<close>

text \<open>\<open>requestAsyncId(scheduler, id, delay = 0)\<close>: \<open>scheduler.flush\<close> throws on a null scheduler.\<close>

definition requestAsyncId :: "nat option \<Rightarrow> jsval \<Rightarrow> jsval \<Rightarrow> world \<Rightarrow> jsval completion \<times> world" where
  "requestAsyncId sch i delay_arg w =
     (let d = default_param delay_arg (JNum 0)
      in case sch of
           None \<Rightarrow> (Throws TypeErrorObj, w)
         | Some s \<Rightarrow>
             (case setInterval \<lparr>flush_scheduler = s, flush_action = self w\<rparr> d (rt w) of
                (h, r) \<Rightarrow> (Returns h, w\<lparr>rt := r\<rparr>)))"

text \<open>
  \<open>recycleAsyncId(scheduler, id, delay = 0)\<close>: the id itself when the delay is not null and
  \<open>===\<close> the recorded one, otherwise \<open>clearInterval(id)\<close> and \<open>undefined\<close>.
\<close>

definition recycleAsyncId :: "nat option \<Rightarrow> jsval \<Rightarrow> jsval \<Rightarrow> world \<Rightarrow> jsval \<times> world" where
  "recycleAsyncId sch i delay_arg w =
     (let d = default_param delay_arg (JNum 0)
      in if d \<noteq> JNull \<and> strict_eq (delay (this w)) d then (i, w)
         else (JUndefined, w\<lparr>rt := clearInterval i (rt w)\<rparr>))"

text \<open>\<open>schedule(state, delay = 0)\<close>; it returns \<open>this\<close>, the reference of the action.\<close>

definition schedule :: "jsval \<Rightarrow> jsval \<Rightarrow> world \<Rightarrow> nat completion \<times> world" where
  "schedule state_arg delay_arg w =
     (if closed (this w) then (Returns (self w), w)
      else
        let d = default_param delay_arg (JNum 0);
            w1 = w\<lparr>this := (this w)\<lparr>state := state_arg, pending := True\<rparr>\<rparr>;
            i = id_t (this w1);
            sch = scheduler (this w1);
            w2 = (if not_null i
                  then (case recycleAsyncId sch i d w1 of
                          (r, w') \<Rightarrow> w'\<lparr>this := (this w')\<lparr>id_t := r\<rparr>\<rparr>)
                  else w1);
            w3 = w2\<lparr>this := (this w2)\<lparr>delay := d\<rparr>\<rparr>
        in if truthy (id_t (this w3)) then (Returns (self w3), w3)
           else (case requestAsyncId sch (id_t (this w3)) d w3 of
                   (Throws e, w') \<Rightarrow> (Throws e, w')
                 | (Returns h, w') \<Rightarrow> (Returns (self w'), w'\<lparr>this := (this w')\<lparr>id_t := h\<rparr>\<rparr>)))"

text \<open>\<open>actions.indexOf(this)\<close> and \<open>actions.splice(index, 1)\<close>.\<close>

fun indexOf :: "'a list \<Rightarrow> 'a \<Rightarrow> int" where
  "indexOf [] x = - 1"
| "indexOf (y # ys) x =
     (if y = x then 0 else (let k = indexOf ys x in if k = - 1 then - 1 else k + 1))"

definition splice1 :: "int \<Rightarrow> 'a list \<Rightarrow> 'a list" where
  "splice1 k xs = take (nat k) xs @ drop (Suc (nat k)) xs"

text \<open>
  \<open>_unsubscribe()\<close>. Reading \<open>scheduler.actions\<close> throws on a null scheduler, before any
  field is written.
\<close>

definition u_unsubscribe :: "world \<Rightarrow> unit completion \<times> world" where
  "u_unsubscribe w =
     (let i = id_t (this w);
          sch = scheduler (this w)
      in case sch of
           None \<Rightarrow> (Throws TypeErrorObj, w)
         | Some s \<Rightarrow>
             let acts = actions w s;
                 index = indexOf acts (self w);
                 w1 = w\<lparr>this := (this w)\<lparr>work := None, delay := JNull, state := JNull,
                                          pending := False, scheduler := None\<rparr>\<rparr>;
                 w2 = (if index \<noteq> - 1 then w1\<lparr>actions := (actions w1)(s := splice1 index acts)\<rparr>
                       else w1)
             in if not_null i
                then (case recycleAsyncId sch i JNull w2 of
                        (r, w') \<Rightarrow> (Returns (), w'\<lparr>this := (this w')\<lparr>id_t := r\<rparr>\<rparr>))
                else (Returns (), w2))"

text \<open>
  Modelled from the spec: \<open>unsubscribe()\<close> belongs to the base class, whose file
  (\<open>./Action\<close>) is not part of the sources. The spec: it "transitions \<open>closed\<close> to true
  exactly once; subclasses hook additional teardown via an overridable \<open>_unsubscribe\<close> step
  invoked only on the first call. No-op on subsequent calls."
\<close>

definition unsubscribe :: "world \<Rightarrow> unit completion \<times> world" where
  "unsubscribe w =
     (if closed (this w) then (Returns (), w)
      else u_unsubscribe (w\<lparr>this := (this w)\<lparr>closed := True\<rparr>\<rparr>))"

text \<open>Running the body of \<open>work\<close>; an exception of a call it makes passes through it.\<close>

primrec run :: "prog \<Rightarrow> world \<Rightarrow> unit completion \<times> world" where
  "run Return w = (Returns (), w)"
| "run (Raise v) w = (Throws (Plain v), w)"
| "run (CallSchedule s d k) w =
     (case schedule s d w of
        (Throws e, w') \<Rightarrow> (Throws e, w')
      | (Returns a, w') \<Rightarrow> run k w')"
| "run (CallUnsubscribe k) w =
     (case unsubscribe w of
        (Throws e, w') \<Rightarrow> (Throws e, w')
      | (Returns u, w') \<Rightarrow> run k w')"
| "run (Observe f) w = run (f (observe w)) w"

text \<open>\<open>this.work(state)\<close>: a TypeError when \<open>work\<close> is null, otherwise the call, logged.\<close>

definition call_work :: "jsval \<Rightarrow> world \<Rightarrow> unit completion \<times> world" where
  "call_work state_arg w =
     (case work (this w) of
        None \<Rightarrow> (Throws TypeErrorObj, w)
      | Some f \<Rightarrow> run (f state_arg) (w\<lparr>invoked := invoked w @ [state_arg]\<rparr>))"

text \<open>
  \<open>_execute(state, delay)\<close>: \<open>errorValue = !!e && e || new Error(e)\<close>; the result is
  \<open>undefined\<close> when nothing was caught.
\<close>

definition u_execute :: "jsval \<Rightarrow> jsval \<Rightarrow> world \<Rightarrow> retval completion \<times> world" where
  "u_execute state_arg delay_arg w =
     (case call_work state_arg w of
        (Returns u, w1) \<Rightarrow> (Returns (Plain JUndefined), w1)
      | (Throws e, w1) \<Rightarrow>
          let errorValue = (if truthy_ret e then e else NewError e)
          in (case unsubscribe w1 of
                (Throws e', w2) \<Rightarrow> (Throws e', w2)
              | (Returns u, w2) \<Rightarrow> (Returns errorValue, w2)))"

text \<open>\<open>execute(state, delay)\<close>.\<close>

definition execute :: "jsval \<Rightarrow> jsval \<Rightarrow> world \<Rightarrow> retval completion \<times> world" where
  "execute state_arg delay_arg w =
     (if closed (this w)
      then (Returns (NewError (Plain (JStr ''executing a cancelled action''))), w)
      else
        case u_execute state_arg delay_arg (w\<lparr>this := (this w)\<lparr>pending := False\<rparr>\<rparr>) of
          (Throws e, w1) \<Rightarrow> (Throws e, w1)
        | (Returns error, w1) \<Rightarrow>
            if truthy_ret error then (Returns error, w1)
            else if pending (this w1) = False \<and> not_null (id_t (this w1))
            then (case recycleAsyncId (scheduler (this w1)) (id_t (this w1)) JNull w1 of
                    (r, w2) \<Rightarrow> (Returns (Plain JUndefined), w2\<lparr>this := (this w2)\<lparr>id_t := r\<rparr>\<rparr>))
            else (Returns (Plain JUndefined), w1))"

text \<open>\<open>unsubscribe()\<close> called \<open>n\<close> times in a row.\<close>

primrec unsubscribe_times :: "nat \<Rightarrow> world \<Rightarrow> world" where
  "unsubscribe_times 0 w = w"
| "unsubscribe_times (Suc n) w = unsubscribe_times n (snd (unsubscribe w))"

section \<open>Well-formed worlds\<close>

text \<open>
  An action that is not closed has its scheduler; its id is absent or a handle the
  runtime has issued; and the runtime holds no timer for this action but the one its id
  names. A torn-down action has released everything.
\<close>

definition attached :: "world \<Rightarrow> bool" where
  "attached w = (closed (this w) \<or> scheduler (this w) \<noteq> None)"

definition holds_handle :: "world \<Rightarrow> bool" where
  "holds_handle w =
     (case id_t (this w) of
        JNum n \<Rightarrow> 0 < n \<and> n \<le> int (issued (rt w))
      | _ \<Rightarrow> False)"

definition timer_ok :: "world \<Rightarrow> bool" where
  "timer_ok w = (id_t (this w) = JUndefined \<or> holds_handle w)"

definition own_timers :: "world \<Rightarrow> interval list" where
  "own_timers w = filter (\<lambda>t. flush_action (fires t) = self w) (intervals (rt w))"

definition no_stray_timer :: "world \<Rightarrow> bool" where
  "no_stray_timer w = list_all (\<lambda>t. id_t (this w) = JNum (int (handle t))) (own_timers w)"

definition consistent :: "world \<Rightarrow> bool" where
  "consistent w = (attached w \<and> timer_ok w \<and> no_stray_timer w)"

definition torn_down :: "world \<Rightarrow> bool" where
  "torn_down w =
     (closed (this w) \<and> work (this w) = None \<and> state (this w) = JNull \<and>
      delay (this w) = JNull \<and> scheduler (this w) = None \<and> \<not> pending (this w) \<and>
      id_t (this w) = JUndefined \<and> own_timers w = [])"

section \<open>Example worlds\<close>

text \<open>
  Four bodies of \<open>work\<close>: one that returns at once, one that reschedules its action with
  the next counter at the fixed delay 50, one that throws the falsy value 0, and one that
  cancels its own action with \<open>this.unsubscribe()\<close> and returns.
\<close>

definition idle :: "jsval \<Rightarrow> prog" where
  "idle v = Return"

definition bump :: "jsval \<Rightarrow> prog" where
  "bump v = (case v of JNum n \<Rightarrow> CallSchedule (JNum (n + 1)) (JNum 50) Return | _ \<Rightarrow> Return)"

definition failing :: "jsval \<Rightarrow> prog" where
  "failing v = Raise (JNum 0)"

definition cancelling :: "jsval \<Rightarrow> prog" where
  "cancelling v = CallUnsubscribe Return"

text \<open>
  A new action with reference 1, created by scheduler 0 and appended to its \<open>actions\<close>,
  in a runtime that has issued no timer yet.
\<close>

definition fresh :: "(jsval \<Rightarrow> prog) \<Rightarrow> world" where
  "fresh wk =
     \<lparr>this = AsyncAction (Some 0) (Some wk), self = 1,
      actions = (\<lambda>s. if s = 0 then [1] else []),
      rt = \<lparr>issued = 0, intervals = []\<rparr>, invoked = []\<rparr>"

text \<open>The new action after a first \<open>schedule(s, d)\<close>.\<close>

definition scheduled :: "(jsval \<Rightarrow> prog) \<Rightarrow> jsval \<Rightarrow> jsval \<Rightarrow> world" where
  "scheduled wk s d = snd (schedule s d (fresh wk))"

section \<open>Basic facts\<close>

lemma schedule_closed: "closed (this w) \<Longrightarrow> schedule s d w = (Returns (self w), w)"
  by (simp add: schedule_def)


lemmas sched_defs = schedule_def recycleAsyncId_def requestAsyncId_def setInterval_def
  clearInterval_def default_param_def Let_def

lemmas inv_defs = consistent_def attached_def timer_ok_def holds_handle_def no_stray_timer_def
  own_timers_def

lemma unsubscribe_closed: "closed (this w) \<Longrightarrow> unsubscribe w = (Returns (), w)"
  by (simp add: unsubscribe_def)

lemma indexOf_ge: "- 1 \<le> indexOf xs x"
  by (induction xs) (auto simp: Let_def)

lemma indexOf_absent: "indexOf xs x = - 1 \<longleftrightarrow> x \<notin> set xs"
proof (induction xs)
  case Nil
  show ?case by simp
next
  case (Cons y ys)
  have "indexOf ys x + 1 \<noteq> - 1" using indexOf_ge[of ys x] by arith
  with Cons show ?case by (simp add: Let_def)
qed

lemma splice1_indexOf: "x \<in> set xs \<Longrightarrow> splice1 (indexOf xs x) xs = remove1 x xs"
proof (induction xs)
  case Nil
  then show ?case by simp
next
  case (Cons y ys)
  show ?case
  proof (cases "y = x")
    case True
    then show ?thesis by (simp add: splice1_def)
  next
    case False
    with Cons.prems have mem: "x \<in> set ys" by simp
    then have ne: "indexOf ys x \<noteq> - 1" by (simp add: indexOf_absent)
    with indexOf_ge[of ys x] have nn: "0 \<le> indexOf ys x" by arith
    then have "nat (indexOf ys x + 1) = Suc (nat (indexOf ys x))" by arith
    with False ne Cons.IH[OF mem] show ?thesis
      by (simp add: splice1_def Let_def)
  qed
qed

lemma splice_remove1:
  "(if indexOf xs x \<noteq> - 1 then splice1 (indexOf xs x) xs else xs) = remove1 x xs"
  by (simp add: indexOf_absent splice1_indexOf remove1_idem)

lemma schedule_open:
  assumes "\<not> closed (this w)" and "scheduler (this w) = Some sch" and "consistent w"
  shows "\<exists>w'. schedule s d w = (Returns (self w), w') \<and> \<not> closed (this w') \<and> consistent w' \<and>
           scheduler (this w') = Some sch \<and> actions w' = actions w \<and> self w' = self w \<and>
           work (this w') = work (this w) \<and> invoked w' = invoked w \<and> pending (this w')"
  using assms
  apply (simp add: sched_defs inv_defs not_null_def strict_eq_def list_all_iff split: jsval.splits)
  apply (auto)
  done


lemma torn_down_consistent: "torn_down w \<Longrightarrow> consistent w"
  by (simp add: torn_down_def inv_defs)

lemma unsubscribe_open:
  assumes "\<not> closed (this w)" and "scheduler (this w) = Some sch" and "consistent w"
  shows "\<exists>w'. unsubscribe w = (Returns (), w') \<and> torn_down w' \<and>
           actions w' = (actions w)(sch := remove1 (self w) (actions w sch)) \<and>
           self w' = self w \<and> invoked w' = invoked w"
proof -
  have list: "(if indexOf (actions w sch) (self w) \<noteq> - 1
        then splice1 (indexOf (actions w sch) (self w)) (actions w sch)
        else actions w sch) = remove1 (self w) (actions w sch)"
    by (rule splice_remove1)
  show ?thesis
  proof (cases "indexOf (actions w sch) (self w) \<noteq> - 1")
    case True
    with list have "splice1 (indexOf (actions w sch) (self w)) (actions w sch) =
        remove1 (self w) (actions w sch)" by simp
    with True assms show ?thesis
      by (auto simp: unsubscribe_def u_unsubscribe_def recycleAsyncId_def clearInterval_def
          default_param_def Let_def torn_down_def inv_defs not_null_def list_all_iff
          filter_empty_conv split: jsval.splits)
  next
    case False
    with list have "actions w sch = remove1 (self w) (actions w sch)" by simp
    then have "(actions w)(sch := remove1 (self w) (actions w sch)) = actions w"
      by (metis fun_upd_triv)
    with False assms show ?thesis
      by (auto simp: unsubscribe_def u_unsubscribe_def recycleAsyncId_def clearInterval_def
          default_param_def Let_def torn_down_def inv_defs not_null_def list_all_iff
          filter_empty_conv split: jsval.splits)
  qed
qed

lemma run_closed:
  "closed (this w) \<Longrightarrow> snd (run p w) = w"
  by (induction p arbitrary: w) (auto simp: schedule_closed unsubscribe_closed)

lemma run_open:
  assumes "\<not> closed (this w)" and "scheduler (this w) = Some sch" and "consistent w"
  shows "self (snd (run p w)) = self w \<and>
         ((\<not> closed (this (snd (run p w))) \<and> consistent (snd (run p w)) \<and>
           scheduler (this (snd (run p w))) = Some sch \<and> actions (snd (run p w)) = actions w) \<or>
          (torn_down (snd (run p w)) \<and>
           actions (snd (run p w)) = (actions w)(sch := remove1 (self w) (actions w sch))))"
  using assms
proof (induction p arbitrary: w)
  case Return
  then show ?case by simp
next
  case (Raise v)
  then show ?case by simp
next
  case (CallSchedule s d k)
  from schedule_open[OF CallSchedule.prems, of s d]
  obtain w' where w': "schedule s d w = (Returns (self w), w')" "\<not> closed (this w')"
    "consistent w'" "scheduler (this w') = Some sch" "actions w' = actions w" "self w' = self w"
    by blast
  from CallSchedule.IH[OF w'(2) w'(4) w'(3)] w' show ?case by simp
next
  case (CallUnsubscribe k)
  from unsubscribe_open[OF CallUnsubscribe.prems]
  obtain w' where w': "unsubscribe w = (Returns (), w')" "torn_down w'"
    "actions w' = (actions w)(sch := remove1 (self w) (actions w sch))" "self w' = self w"
    by blast
  from w'(2) have "closed (this w')" by (simp add: torn_down_def)
  then have "snd (run k w') = w'" by (rule run_closed)
  with w' show ?case by simp
next
  case (Observe f)
  from Observe.IH[OF rangeI Observe.prems] show ?case by simp
qed


lemma schedule_state: "\<not> closed (this w) \<Longrightarrow> state (this (snd (schedule s d w))) = s"
  by (simp add: sched_defs split: option.splits prod.splits completion.splits)

lemma schedule_keeps_closed: "closed (this (snd (schedule s d w))) = closed (this w)"
  by (simp add: sched_defs split: option.splits prod.splits completion.splits)

lemma schedule_pending: "\<not> closed (this w) \<Longrightarrow> pending (this (snd (schedule s d w)))"
  by (simp add: sched_defs split: option.splits prod.splits completion.splits)

lemma unsubscribe_closes: "closed (this (snd (unsubscribe w)))"
  by (simp add: unsubscribe_def u_unsubscribe_def recycleAsyncId_def Let_def
      split: option.splits)

lemma execute_closed:
  "closed (this w) \<Longrightarrow>
     execute s d w = (Returns (NewError (Plain (JStr ''executing a cancelled action''))), w)"
  by (simp add: execute_def)

lemma run_pending_or_closed:
  "pending (this w) \<or> closed (this w) \<Longrightarrow>
     pending (this (snd (run p w))) \<or> closed (this (snd (run p w)))"
proof (induction p arbitrary: w)
  case (CallSchedule s d k)
  have "pending (this (snd (schedule s d w))) \<or> closed (this (snd (schedule s d w)))"
    using schedule_pending[of w s d] schedule_keeps_closed[of s d w] by blast
  with CallSchedule.IH[of "snd (schedule s d w)"] show ?case
    by (cases "schedule s d w"; cases "fst (schedule s d w)") auto
next
  case (CallUnsubscribe k)
  with CallUnsubscribe.IH[of "snd (unsubscribe w)"] unsubscribe_closes[of w] show ?case
    by (cases "unsubscribe w"; cases "fst (unsubscribe w)") auto
next
  case (Observe f)
  from Observe.IH[OF rangeI Observe.prems] show ?case by simp
qed simp_all

lemma run_inert:
  assumes "\<not> pending (this (snd (run p w)))" and "\<not> closed (this (snd (run p w)))"
  shows "snd (run p w) = w"
  using assms
proof (induction p arbitrary: w)
  case (CallSchedule s d k)
  show ?case
  proof (cases "closed (this w)")
    case True
    then show ?thesis by (rule run_closed)
  next
    case False
    then have "pending (this (snd (schedule s d w)))" by (rule schedule_pending)
    then have "pending (this (snd (run k (snd (schedule s d w))))) \<or>
               closed (this (snd (run k (snd (schedule s d w)))))"
      by (simp add: run_pending_or_closed)
    with CallSchedule.prems \<open>pending (this (snd (schedule s d w)))\<close> show ?thesis
      by (cases "schedule s d w"; cases "fst (schedule s d w)") auto
  qed
next
  case (CallUnsubscribe k)
  show ?case
  proof (cases "closed (this w)")
    case True
    then show ?thesis by (rule run_closed)
  next
    case False
    have c: "closed (this (snd (unsubscribe w)))" by (rule unsubscribe_closes)
    then have "snd (run k (snd (unsubscribe w))) = snd (unsubscribe w)" by (rule run_closed)
    with CallUnsubscribe.prems c show ?thesis
      by (cases "unsubscribe w"; cases "fst (unsubscribe w)") auto
  qed
next
  case (Observe f)
  from Observe.IH[OF rangeI] Observe.prems show ?case by simp
qed simp_all

lemma unsubscribe_attached:
  "attached w \<Longrightarrow> \<exists>w'. unsubscribe w = (Returns (), w') \<and> closed (this w')"
  by (auto simp: unsubscribe_def u_unsubscribe_def recycleAsyncId_def Let_def attached_def
      split: option.splits)

lemma schedule_attached:
  "attached w \<Longrightarrow> \<exists>w'. schedule s d w = (Returns (self w), w') \<and> attached w'"
  by (auto simp: sched_defs attached_def)

lemma run_attached: "attached w \<Longrightarrow> attached (snd (run p w))"
proof (induction p arbitrary: w)
  case (CallSchedule s d k)
  from schedule_attached[OF CallSchedule.prems, of s d]
  obtain w' where "schedule s d w = (Returns (self w), w')" "attached w'" by blast
  with CallSchedule.IH[of w'] show ?case by simp
next
  case (CallUnsubscribe k)
  from unsubscribe_attached[OF CallUnsubscribe.prems]
  obtain w' where "unsubscribe w = (Returns (), w')" "closed (this w')" by blast
  with CallUnsubscribe.IH[of w'] show ?case by (simp add: attached_def)
next
  case (Observe f)
  from Observe.IH[OF rangeI Observe.prems] show ?case by simp
qed simp_all

lemmas ex_defs = fresh_def AsyncAction_def idle_def bump_def failing_def cancelling_def
  scheduled_def

lemmas op_defs = sched_defs unsubscribe_def u_unsubscribe_def execute_def u_execute_def
  call_work_def not_null_def strict_eq_def

lemma unsubscribe_times_closed: "closed (this w) \<Longrightarrow> unsubscribe_times n w = w"
  by (induction n) (simp_all add: unsubscribe_closed)

lemma call_work_attached: "attached w \<Longrightarrow> attached (snd (call_work st w))"
proof (cases "work (this w)")
  case None
  assume "attached w"
  with None show ?thesis by (simp add: call_work_def)
next
  case (Some f)
  assume "attached w"
  then have "attached (w\<lparr>invoked := invoked w @ [st]\<rparr>)" by (simp add: attached_def)
  then have "attached (snd (run (f st) (w\<lparr>invoked := invoked w @ [st]\<rparr>)))"
    by (rule run_attached)
  with Some show ?thesis by (simp add: call_work_def)
qed

lemma run_throws_plain:
  "attached w \<Longrightarrow> run p w = (Throws e, w') \<Longrightarrow> \<exists>v. e = Plain v"
proof (induction p arbitrary: w)
  case (CallSchedule s d k)
  from schedule_attached[OF CallSchedule.prems(1), of s d]
  obtain w2 where "schedule s d w = (Returns (self w), w2)" "attached w2" by blast
  with CallSchedule.IH[of w2] CallSchedule.prems(2) show ?case by simp
next
  case (CallUnsubscribe k)
  from unsubscribe_attached[OF CallUnsubscribe.prems(1)]
  obtain w2 where "unsubscribe w = (Returns (), w2)" "closed (this w2)" by blast
  with CallUnsubscribe.IH[of w2] CallUnsubscribe.prems(2) show ?case
    by (simp add: attached_def)
next
  case (Observe f)
  from Observe.IH[OF rangeI Observe.prems(1)] Observe.prems(2) show ?case by simp
qed auto

section \<open>The invariant\<close>

text \<open>
  A new action is consistent, and \<open>schedule\<close>, \<open>unsubscribe\<close>, \<open>work\<close> and \<open>execute\<close> keep
  it so: consistency holds of every world the operations can reach.
\<close>

lemma consistent_pending [simp]:
  "consistent (w\<lparr>this := (this w)\<lparr>pending := b\<rparr>\<rparr>) = consistent w"
  by (simp add: inv_defs split: jsval.splits)

lemma consistent_invoked [simp]: "consistent (w\<lparr>invoked := l\<rparr>) = consistent w"
  by (simp add: inv_defs split: jsval.splits)

lemma consistent_fresh: "consistent (fresh wk)"
  by (simp add: ex_defs inv_defs)

lemma schedule_consistent: "consistent w \<Longrightarrow> consistent (snd (schedule s d w))"
proof (cases "closed (this w)")
  case True
  assume "consistent w"
  with True show ?thesis by (simp add: schedule_closed)
next
  case False
  assume c: "consistent w"
  with False obtain sch where "scheduler (this w) = Some sch" by (auto simp: inv_defs)
  from schedule_open[OF False this c, of s d] show ?thesis by auto
qed

lemma unsubscribe_consistent: "consistent w \<Longrightarrow> consistent (snd (unsubscribe w))"
proof (cases "closed (this w)")
  case True
  assume "consistent w"
  with True show ?thesis by (simp add: unsubscribe_closed)
next
  case False
  assume c: "consistent w"
  with False obtain sch where "scheduler (this w) = Some sch" by (auto simp: inv_defs)
  from unsubscribe_open[OF False this c] show ?thesis by (auto simp: torn_down_consistent)
qed

lemma run_consistent: "consistent w \<Longrightarrow> consistent (snd (run p w))"
proof (cases "closed (this w)")
  case True
  assume "consistent w"
  with True show ?thesis by (simp add: run_closed)
next
  case False
  assume c: "consistent w"
  with False obtain sch where "scheduler (this w) = Some sch" by (auto simp: inv_defs)
  from run_open[OF False this c, of p] show ?thesis by (auto simp: torn_down_consistent)
qed

lemma call_work_consistent: "consistent w \<Longrightarrow> consistent (snd (call_work st w))"
  by (cases "work (this w)") (simp_all add: call_work_def run_consistent)

lemma recycle_null_consistent:
  assumes "consistent w"
  shows "consistent (w\<lparr>rt := clearInterval (id_t (this w)) (rt w),
                      this := (this w)\<lparr>id_t := JUndefined\<rparr>\<rparr>)"
  using assms
  by (auto simp: inv_defs clearInterval_def list_all_iff)

lemma execute_consistent: "consistent w \<Longrightarrow> consistent (snd (execute st d w))"
proof (cases "closed (this w)")
  case True
  assume "consistent w"
  with True show ?thesis by (simp add: execute_closed)
next
  case False
  assume c: "consistent w"
  let ?w0 = "w\<lparr>this := (this w)\<lparr>pending := False\<rparr>\<rparr>"
  obtain r w1 where cw: "call_work st ?w0 = (r, w1)" by (cases "call_work st ?w0")
  from c have "consistent ?w0" by simp
  from call_work_consistent[OF this, of st] cw have c1: "consistent w1" by simp
  show ?thesis
  proof (cases r)
    case (Returns u)
    with False cw c1 recycle_null_consistent[OF c1] show ?thesis
      by (simp add: execute_def u_execute_def recycleAsyncId_def default_param_def)
  next
    case (Throws e)
    from unsubscribe_consistent[OF c1] have "consistent (snd (unsubscribe w1))" .
    with False cw Throws show ?thesis
      by (cases "unsubscribe w1"; cases "fst (unsubscribe w1)")
         (auto simp: execute_def u_execute_def)
  qed
qed

section \<open>The claims\<close>

text \<open>
  C1 (timer reuse law, as amended). A non-closed action with a scheduler holds a live timer
  id and has the recorded delay \<open>D\<close>. A call \<open>schedule(state, D')\<close>, an omitted \<open>D'\<close> counting
  as 0, leaves the id and the runtime's timers untouched when \<open>D'\<close> is neither null nor NaN
  and equals \<open>D\<close>. In every other case, a null or NaN delay included, it cancels the
  existing timer and stores a freshly requested id, different from the old one.
\<close>

theorem timer_reuse_law:
  assumes "\<not> closed (this w)" and "scheduler (this w) = Some sch" and "holds_handle w"
  shows "let D' = default_param d (JNum 0); w' = snd (schedule s d w)
         in fst (schedule s d w) = Returns (self w) \<and>
            (if D' \<noteq> JNull \<and> D' \<noteq> JNaN \<and> D' = delay (this w)
             then id_t (this w') = id_t (this w) \<and> rt w' = rt w
             else id_t (this w') = JNum (int (Suc (issued (rt w)))) \<and>
                  id_t (this w') \<noteq> id_t (this w) \<and>
                  id_t (this w) \<notin> (\<lambda>t. JNum (int (handle t))) ` set (intervals (rt w')) \<and>
                  rt w' = snd (setInterval \<lparr>flush_scheduler = sch, flush_action = self w\<rparr> D'
                                 (clearInterval (id_t (this w)) (rt w))))"
  using assms
  apply (simp add: sched_defs holds_handle_def not_null_def strict_eq_def split: jsval.splits)
  apply auto
  done

theorem timer_reuse_law_witness:
  "\<not> closed (this (scheduled idle (JNum 1) (JNum 100))) \<and>
   scheduler (this (scheduled idle (JNum 1) (JNum 100))) = Some 0 \<and>
   holds_handle (scheduled idle (JNum 1) (JNum 100)) \<and>
   id_t (this (scheduled idle (JNum 1) (JNum 100))) = JNum 1 \<and>
   id_t (this (snd (schedule (JNum 2) (JNum 100)
     (scheduled idle (JNum 1) (JNum 100))))) = JNum 1 \<and>
   id_t (this (snd (schedule (JNum 2) (JNum 10)
     (scheduled idle (JNum 1) (JNum 100))))) = JNum 2 \<and>
   map handle (intervals (rt (snd (schedule (JNum 2) (JNum 10)
     (scheduled idle (JNum 1) (JNum 100)))))) = [2]"
  using timer_reuse_law[of "scheduled idle (JNum 1) (JNum 100)" 0 "JNum 100" "JNum 2"]
    timer_reuse_law[of "scheduled idle (JNum 1) (JNum 100)" 0 "JNum 10" "JNum 2"]
  by (simp add: ex_defs op_defs holds_handle_def)

text \<open>
  The claim as the spec words it, for every delay \<open>D\<close>, fails at \<open>D = null\<close>: a new action
  scheduled with a null delay holds the live timer 1, and scheduling it again with the
  same null delay replaces that timer by timer 2.
\<close>

theorem timer_reuse_null_delay_counterexample:
  "\<not> closed (this (scheduled idle (JNum 1) JNull)) \<and>
   delay (this (scheduled idle (JNum 1) JNull)) = JNull \<and>
   id_t (this (scheduled idle (JNum 1) JNull)) = JNum 1 \<and>
   map handle (intervals (rt (scheduled idle (JNum 1) JNull))) = [1] \<and>
   id_t (this (snd (schedule (JNum 2) JNull (scheduled idle (JNum 1) JNull)))) = JNum 2 \<and>
   id_t (this (snd (schedule (JNum 2) JNull (scheduled idle (JNum 1) JNull)))) \<noteq>
     id_t (this (scheduled idle (JNum 1) JNull))"
  by (simp add: ex_defs op_defs)

text \<open>A NaN delay is never reused either, since NaN is not \<open>===\<close> to itself.\<close>

lemma timer_reuse_nan_delay:
  "delay (this (scheduled idle (JNum 1) JNaN)) = JNaN \<and>
   id_t (this (scheduled idle (JNum 1) JNaN)) = JNum 1 \<and>
   id_t (this (snd (schedule (JNum 2) JNaN (scheduled idle (JNum 1) JNaN)))) = JNum 2"
  by (simp add: ex_defs op_defs)

text \<open>
  C2 (self-reschedule survives the cleanup of \<open>execute\<close>). The action is not closed and its
  \<open>work\<close> returns normally. If \<open>pending\<close> is true again when \<open>work\<close> returns, as it is after
  a \<open>schedule\<close> call of \<open>work\<close> on its own action, \<open>execute\<close> leaves the world as \<open>work\<close>
  left it: the timer is not torn down. If \<open>pending\<close> is still false, \<open>execute\<close> clears the
  timer of a present id and sets the id to \<open>undefined\<close>.
\<close>

theorem self_reschedule_survives:
  assumes "\<not> closed (this w)"
      and "call_work st (w\<lparr>this := (this w)\<lparr>pending := False\<rparr>\<rparr>) = (Returns u, w1)"
  shows "if pending (this w1)
         then execute st d w = (Returns (Plain JUndefined), w1)
         else execute st d w =
                (Returns (Plain JUndefined),
                 if not_null (id_t (this w1))
                 then w1\<lparr>this := (this w1)\<lparr>id_t := JUndefined\<rparr>,
                         rt := clearInterval (id_t (this w1)) (rt w1)\<rparr>
                 else w1)"
  using assms
  by (simp add: execute_def u_execute_def recycleAsyncId_def default_param_def)

theorem self_reschedule_survives_witness:
  "\<not> closed (this (scheduled bump (JNum 0) (JNum 50))) \<and>
   fst (call_work (JNum 0) ((scheduled bump (JNum 0) (JNum 50))
      \<lparr>this := (this (scheduled bump (JNum 0) (JNum 50)))\<lparr>pending := False\<rparr>\<rparr>))
     = Returns () \<and>
   pending (this (snd (execute (JNum 0) (JNum 50) (scheduled bump (JNum 0) (JNum 50))))) \<and>
   id_t (this (snd (execute (JNum 0) (JNum 50) (scheduled bump (JNum 0) (JNum 50))))) = JNum 1 \<and>
   state (this (snd (execute (JNum 0) (JNum 50) (scheduled bump (JNum 0) (JNum 50))))) = JNum 1 \<and>
   map handle (intervals (rt (snd (execute (JNum 0) (JNum 50)
      (scheduled bump (JNum 0) (JNum 50)))))) = [1] \<and>
   \<not> closed (this (scheduled idle (JNum 0) (JNum 50))) \<and>
   fst (call_work (JNum 0) ((scheduled idle (JNum 0) (JNum 50))
      \<lparr>this := (this (scheduled idle (JNum 0) (JNum 50)))\<lparr>pending := False\<rparr>\<rparr>))
     = Returns () \<and>
   id_t (this (snd (execute (JNum 0) (JNum 50) (scheduled idle (JNum 0) (JNum 50))))) = JUndefined \<and>
   intervals (rt (snd (execute (JNum 0) (JNum 50) (scheduled idle (JNum 0) (JNum 50))))) = []"
  using self_reschedule_survives[of "scheduled bump (JNum 0) (JNum 50)" "JNum 0" "()"
      "snd (call_work (JNum 0) ((scheduled bump (JNum 0) (JNum 50))
      \<lparr>this := (this (scheduled bump (JNum 0) (JNum 50)))\<lparr>pending := False\<rparr>\<rparr>))" "JNum 50"]
    self_reschedule_survives[of "scheduled idle (JNum 0) (JNum 50)" "JNum 0" "()"
      "snd (call_work (JNum 0) ((scheduled idle (JNum 0) (JNum 50))
      \<lparr>this := (this (scheduled idle (JNum 0) (JNum 50)))\<lparr>pending := False\<rparr>\<rparr>))" "JNum 50"]
  by (simp add: ex_defs op_defs)

text \<open>
  C3 (no execution after cancellation). On a closed action, \<open>execute\<close> returns the Error
  \<open>executing a cancelled action\<close> and leaves the whole world as it was: \<open>work\<close> is not
  invoked, and no field and no timer changes.
\<close>

theorem execute_cancelled:
  assumes "closed (this w)"
  shows "execute s d w = (Returns (NewError (Plain (JStr ''executing a cancelled action''))), w) \<and>
         truthy_ret (NewError (Plain (JStr ''executing a cancelled action''))) \<and>
         invoked (snd (execute s d w)) = invoked w \<and>
         this (snd (execute s d w)) = this w \<and>
         rt (snd (execute s d w)) = rt w"
  using assms by (simp add: execute_def)

theorem execute_cancelled_witness:
  "closed (this (snd (unsubscribe (fresh idle)))) \<and>
   execute (JNum 1) (JNum 50) (snd (unsubscribe (fresh idle))) =
     (Returns (NewError (Plain (JStr ''executing a cancelled action''))),
      snd (unsubscribe (fresh idle))) \<and>
   invoked (snd (execute (JNum 1) (JNum 50) (snd (unsubscribe (fresh idle))))) = []"
  using execute_cancelled[of "snd (unsubscribe (fresh idle))" "JNum 1" "JNum 50"]
  by (simp add: ex_defs op_defs)

text \<open>
  C4 (failure tears down the action, as amended). The action is not closed and
  consistent, and its \<open>work\<close> throws. Then \<open>execute\<close> returns, rather than throws, the failure
  itself when it is truthy and a new Error made of it when it is falsy, and afterwards
  the action is torn down: closed, with
  \<open>work\<close>, \<open>state\<close>, \<open>delay\<close> and the scheduler cleared, without a timer in the runtime, and
  with one entry removed from its scheduler's \<open>actions\<close>, which is its only entry when the
  list holds every action at most once.
\<close>

theorem failure_tears_down:
  assumes "\<not> closed (this w)" and "scheduler (this w) = Some sch" and "consistent w"
      and "call_work st (w\<lparr>this := (this w)\<lparr>pending := False\<rparr>\<rparr>) = (Throws e, w1)"
  shows "fst (execute st d w) = Returns (if truthy_ret e then e else NewError e) \<and>
         torn_down (snd (execute st d w)) \<and>
         actions (snd (execute st d w)) sch = remove1 (self w) (actions w sch) \<and>
         (distinct (actions w sch) \<longrightarrow> self w \<notin> set (actions (snd (execute st d w)) sch))"
proof -
  let ?w0 = "w\<lparr>this := (this w)\<lparr>pending := False\<rparr>\<rparr>"
  have open0: "\<not> closed (this ?w0)" "scheduler (this ?w0) = Some sch" "consistent ?w0"
    using assms(1-3) by simp_all
  have w1: "self w1 = self w \<and>
         ((\<not> closed (this w1) \<and> consistent w1 \<and> scheduler (this w1) = Some sch \<and>
           actions w1 = actions w) \<or>
          (torn_down w1 \<and> actions w1 = (actions w)(sch := remove1 (self w) (actions w sch))))"
  proof (cases "work (this w)")
    case None
    with assms(4) have "w1 = ?w0" by (simp add: call_work_def)
    with open0 show ?thesis by simp
  next
    case (Some f)
    let ?w0' = "?w0\<lparr>invoked := invoked w @ [st]\<rparr>"
    from Some assms(4) have r: "run (f st) ?w0' = (Throws e, w1)" by (simp add: call_work_def)
    have "\<not> closed (this ?w0')" "scheduler (this ?w0') = Some sch" "consistent ?w0'"
      using assms(1-3) by simp_all
    from run_open[OF this, of "f st"] r show ?thesis by simp
  qed
  have "\<exists>w2. unsubscribe w1 = (Returns (), w2) \<and> self w2 = self w \<and> torn_down w2 \<and>
          actions w2 = (actions w)(sch := remove1 (self w) (actions w sch))"
  proof (cases "closed (this w1)")
    case True
    with w1 show ?thesis by (auto simp: unsubscribe_closed)
  next
    case False
    with w1 have o: "\<not> closed (this w1)" "scheduler (this w1) = Some sch" "consistent w1"
      and a: "actions w1 = actions w" "self w1 = self w"
      by (auto simp: torn_down_def)
    from unsubscribe_open[OF o] a show ?thesis by auto
  qed
  then obtain w2 where w2: "unsubscribe w1 = (Returns (), w2)" "torn_down w2"
    "actions w2 = (actions w)(sch := remove1 (self w) (actions w sch))" by blast
  have ex: "execute st d w = (Returns (if truthy_ret e then e else NewError e), w2)"
    using assms(1,4) w2(1) by (simp add: execute_def u_execute_def)
  show ?thesis using w2 by (simp add: ex)
qed

theorem failure_tears_down_witness:
  "\<not> closed (this (scheduled failing (JNum 1) (JNum 50))) \<and>
   scheduler (this (scheduled failing (JNum 1) (JNum 50))) = Some 0 \<and>
   consistent (scheduled failing (JNum 1) (JNum 50)) \<and>
   fst (call_work (JNum 1) ((scheduled failing (JNum 1) (JNum 50))
       \<lparr>this := (this (scheduled failing (JNum 1) (JNum 50)))\<lparr>pending := False\<rparr>\<rparr>)) =
     Throws (Plain (JNum 0)) \<and>
   distinct (actions (scheduled failing (JNum 1) (JNum 50)) 0) \<and>
   fst (execute (JNum 1) (JNum 50) (scheduled failing (JNum 1) (JNum 50))) =
     Returns (NewError (Plain (JNum 0))) \<and>
   torn_down (snd (execute (JNum 1) (JNum 50) (scheduled failing (JNum 1) (JNum 50)))) \<and>
   actions (snd (execute (JNum 1) (JNum 50) (scheduled failing (JNum 1) (JNum 50)))) 0 = []"
  using failure_tears_down[of "scheduled failing (JNum 1) (JNum 50)" 0 "JNum 1" "Plain (JNum 0)"
      "snd (call_work (JNum 1) ((scheduled failing (JNum 1) (JNum 50))
       \<lparr>this := (this (scheduled failing (JNum 1) (JNum 50)))\<lparr>pending := False\<rparr>\<rparr>))" "JNum 50"]
  by (simp add: ex_defs op_defs inv_defs torn_down_def)

text \<open>
  The claim as the spec words it, that \<open>execute\<close> returns the very failure \<open>work\<close> raised,
  fails for a falsy failure: \<open>work\<close> throws the number 0, and \<open>execute\<close> returns a new Error
  made of 0, which is not the value 0.
\<close>

theorem failure_falsy_value_counterexample:
  "\<not> closed (this (scheduled failing (JNum 1) (JNum 50))) \<and>
   fst (call_work (JNum 1) ((scheduled failing (JNum 1) (JNum 50))
       \<lparr>this := (this (scheduled failing (JNum 1) (JNum 50)))\<lparr>pending := False\<rparr>\<rparr>)) =
     Throws (Plain (JNum 0)) \<and>
   fst (execute (JNum 1) (JNum 50) (scheduled failing (JNum 1) (JNum 50))) =
     Returns (NewError (Plain (JNum 0))) \<and>
   fst (execute (JNum 1) (JNum 50) (scheduled failing (JNum 1) (JNum 50))) \<noteq>
     Returns (Plain (JNum 0))"
  by (simp add: ex_defs op_defs)

text \<open>
  C5 (request-iff law inside \<open>schedule\<close>). The action is not closed, has a scheduler, and
  its id is absent or a handle of the runtime. One call of \<open>schedule\<close> requests a timer,
  once, exactly when no id survives the recycling step, that is when the action had no id
  or \<open>recycleAsyncId\<close> returned \<open>undefined\<close>; otherwise it keeps the recycled id and leaves the
  runtime as it was.
\<close>

theorem request_iff_no_id_survives:
  assumes "\<not> closed (this w)" and "scheduler (this w) = Some sch" and "timer_ok w"
  shows "let i = id_t (this w);
             survivor = (if not_null i then fst (recycleAsyncId (Some sch) i d w) else i);
             w' = snd (schedule s d w)
         in not_null survivor = (not_null i \<and> fst (recycleAsyncId (Some sch) i d w) \<noteq> JUndefined) \<and>
            (if not_null survivor
             then issued (rt w') = issued (rt w) \<and> id_t (this w') = survivor \<and> rt w' = rt w
             else issued (rt w') = Suc (issued (rt w)) \<and>
                  id_t (this w') = JNum (int (Suc (issued (rt w)))) \<and>
                  rt w' = snd (setInterval \<lparr>flush_scheduler = sch, flush_action = self w\<rparr>
                                 (default_param d (JNum 0))
                                 (if not_null i then clearInterval i (rt w) else rt w)))"
  using assms
  by (simp add: sched_defs timer_ok_def holds_handle_def not_null_def strict_eq_def split: jsval.splits)

theorem request_iff_no_id_survives_witness:
  "\<not> closed (this (scheduled idle (JNum 1) (JNum 100))) \<and>
   scheduler (this (scheduled idle (JNum 1) (JNum 100))) = Some 0 \<and>
   timer_ok (scheduled idle (JNum 1) (JNum 100)) \<and>
   issued (rt (fresh idle)) = 0 \<and>
   issued (rt (scheduled idle (JNum 1) (JNum 100))) = 1 \<and>
   issued (rt (snd (schedule (JNum 2) (JNum 100)
     (scheduled idle (JNum 1) (JNum 100))))) = 1 \<and>
   issued (rt (snd (schedule (JNum 2) (JNum 10)
     (scheduled idle (JNum 1) (JNum 100))))) = 2"
  using request_iff_no_id_survives[of "fresh idle" 0 "JNum 100" "JNum 1"]
    request_iff_no_id_survives[of "scheduled idle (JNum 1) (JNum 100)" 0 "JNum 100" "JNum 2"]
    request_iff_no_id_survives[of "scheduled idle (JNum 1) (JNum 100)" 0 "JNum 10" "JNum 2"]
  by (simp add: ex_defs op_defs timer_ok_def holds_handle_def)

text \<open>
  C6 (scheduling a cancelled action is a silent no-op). On a closed action, \<open>schedule\<close>
  returns the action itself, raises nothing and changes nothing in the world.
\<close>

theorem schedule_cancelled_noop:
  assumes "closed (this w)"
  shows "schedule s d w = (Returns (self w), w)"
  using assms by (simp add: schedule_def)

theorem schedule_cancelled_noop_witness:
  "closed (this (snd (unsubscribe (fresh idle)))) \<and>
   schedule (JNum 1) (JNum 50) (snd (unsubscribe (fresh idle))) =
     (Returns 1, snd (unsubscribe (fresh idle)))"
  using schedule_cancelled_noop[of "snd (unsubscribe (fresh idle))" "JNum 1" "JNum 50"]
  by (simp add: ex_defs op_defs)

text \<open>
  C7 (last write wins on \<open>state\<close>). Every \<open>schedule\<close> call on a non-closed action stores the
  state it is given; after two calls in a row the stored state is that of the second.
\<close>

theorem last_write_wins:
  assumes "\<not> closed (this w)"
  shows "state (this (snd (schedule s d w))) = s \<and>
         state (this (snd (schedule s2 d2 (snd (schedule s1 d1 w))))) = s2"
  using assms by (simp add: schedule_state schedule_keeps_closed)

theorem last_write_wins_witness:
  "\<not> closed (this (fresh idle)) \<and>
   state (this (scheduled idle (JNum 1) (JNum 100))) = JNum 1 \<and>
   state (this (snd (schedule (JNum 2) (JNum 100)
     (scheduled idle (JNum 1) (JNum 100))))) = JNum 2"
  using last_write_wins[of "fresh idle" "JNum 1" "JNum 100" "JNum 2" "JNum 100" "JNum 1" "JNum 100"]
  by (simp add: ex_defs)

text \<open>
  C8 (idempotent cancellation). For every \<open>n \<ge> 1\<close>, calling \<open>unsubscribe()\<close> \<open>n\<close> times
  leaves the world that one call leaves. The action is closed after it and stays closed
  under \<open>schedule\<close> and \<open>execute\<close>, and a further \<open>unsubscribe()\<close> changes nothing: the
  teardown step ran in the first call only.
\<close>

theorem unsubscribe_idempotent:
  assumes "1 \<le> n"
  shows "unsubscribe_times n w = snd (unsubscribe w) \<and>
         closed (this (unsubscribe_times n w)) \<and>
         unsubscribe (unsubscribe_times n w) = (Returns (), unsubscribe_times n w) \<and>
         closed (this (snd (schedule s d (unsubscribe_times n w)))) \<and>
         closed (this (snd (execute s d (unsubscribe_times n w))))"
proof -
  from assms obtain m where n: "n = Suc m" by (cases n) auto
  have c: "closed (this (snd (unsubscribe w)))" by (rule unsubscribe_closes)
  have eq: "unsubscribe_times n w = snd (unsubscribe w)"
    by (simp add: n unsubscribe_times_closed[OF c])
  with c show ?thesis
    by (simp add: unsubscribe_closed schedule_closed execute_closed)
qed

theorem unsubscribe_idempotent_witness:
  "(1::nat) \<le> 3 \<and>
   unsubscribe_times 3 (scheduled idle (JNum 1) (JNum 100)) =
     snd (unsubscribe (scheduled idle (JNum 1) (JNum 100))) \<and>
   closed (this (unsubscribe_times 3 (scheduled idle (JNum 1) (JNum 100)))) \<and>
   intervals (rt (unsubscribe_times 3 (scheduled idle (JNum 1) (JNum 100)))) = []"
  using unsubscribe_idempotent[of 3 "scheduled idle (JNum 1) (JNum 100)" JNull JNull]
  by (simp add: ex_defs op_defs)

text \<open>
  C9 (success without reschedule tears down the timer only, as amended). The action is
  not closed, has a scheduler and an id; its \<open>work\<close> returns normally, without rescheduling
  and without cancelling the action: it leaves the action neither pending nor closed. Then \<open>execute\<close> clears the timer and the id and changes nothing
  else but \<open>pending\<close> and the log of invocations: the action stays open with its \<open>work\<close>
  and scheduler, and a later \<open>schedule\<close> call returns normally with a fresh timer.
\<close>

theorem success_keeps_action:
  assumes "\<not> closed (this w)" and "scheduler (this w) = Some sch"
      and "not_null (id_t (this w))"
      and "call_work st (w\<lparr>this := (this w)\<lparr>pending := False\<rparr>\<rparr>) = (Returns u, w1)"
      and "\<not> pending (this w1)" and "\<not> closed (this w1)"
  shows "execute st d w =
           (Returns (Plain JUndefined),
            w\<lparr>this := (this w)\<lparr>pending := False, id_t := JUndefined\<rparr>,
              rt := clearInterval (id_t (this w)) (rt w),
              invoked := invoked w @ [st]\<rparr>) \<and>
         \<not> closed (this (snd (execute st d w))) \<and>
         work (this (snd (execute st d w))) = work (this w) \<and>
         scheduler (this (snd (execute st d w))) = Some sch \<and>
         fst (schedule s2 d2 (snd (execute st d w))) = Returns (self w) \<and>
         id_t (this (snd (schedule s2 d2 (snd (execute st d w))))) =
           JNum (int (Suc (issued (rt w)))) \<and>
         state (this (snd (schedule s2 d2 (snd (execute st d w))))) = s2 \<and>
         pending (this (snd (schedule s2 d2 (snd (execute st d w)))))"
proof -
  let ?w0 = "w\<lparr>this := (this w)\<lparr>pending := False\<rparr>\<rparr>"
  from assms(4) obtain f where f: "work (this w) = Some f"
    and r: "run (f st) (?w0\<lparr>invoked := invoked w @ [st]\<rparr>) = (Returns u, w1)"
    by (auto simp: call_work_def split: option.splits)
  from r assms(5,6) have "snd (run (f st) (?w0\<lparr>invoked := invoked w @ [st]\<rparr>)) =
      ?w0\<lparr>invoked := invoked w @ [st]\<rparr>"
    using run_inert[of "f st" "?w0\<lparr>invoked := invoked w @ [st]\<rparr>"] by simp
  with r have w1: "w1 = ?w0\<lparr>invoked := invoked w @ [st]\<rparr>" by simp
  have ex: "execute st d w =
           (Returns (Plain JUndefined),
            w\<lparr>this := (this w)\<lparr>pending := False, id_t := JUndefined\<rparr>,
              rt := clearInterval (id_t (this w)) (rt w),
              invoked := invoked w @ [st]\<rparr>)"
    using assms(1,3,4) w1
    by (simp add: execute_def u_execute_def recycleAsyncId_def default_param_def)
  show ?thesis
    using assms(1,2)
    by (simp add: ex sched_defs not_null_def)
qed

theorem success_keeps_action_witness:
  "\<not> closed (this (scheduled idle (JNum 1) (JNum 100))) \<and>
   scheduler (this (scheduled idle (JNum 1) (JNum 100))) = Some 0 \<and>
   not_null (id_t (this (scheduled idle (JNum 1) (JNum 100)))) \<and>
   call_work (JNum 1) ((scheduled idle (JNum 1) (JNum 100))
       \<lparr>this := (this (scheduled idle (JNum 1) (JNum 100)))\<lparr>pending := False\<rparr>\<rparr>) =
     (Returns (), (scheduled idle (JNum 1) (JNum 100))
       \<lparr>this := (this (scheduled idle (JNum 1) (JNum 100)))\<lparr>pending := False\<rparr>,
        invoked := [JNum 1]\<rparr>) \<and>
   fst (execute (JNum 1) (JNum 100) (scheduled idle (JNum 1) (JNum 100))) =
     Returns (Plain JUndefined) \<and>
   \<not> closed (this (snd (execute (JNum 1) (JNum 100) (scheduled idle (JNum 1) (JNum 100))))) \<and>
   id_t (this (snd (execute (JNum 1) (JNum 100) (scheduled idle (JNum 1) (JNum 100))))) =
     JUndefined \<and>
   intervals (rt (snd (execute (JNum 1) (JNum 100) (scheduled idle (JNum 1) (JNum 100))))) = [] \<and>
   id_t (this (snd (schedule (JNum 2) (JNum 100)
     (snd (execute (JNum 1) (JNum 100) (scheduled idle (JNum 1) (JNum 100))))))) = JNum 2"
  using success_keeps_action[of "scheduled idle (JNum 1) (JNum 100)" 0 "JNum 1" "()"
      "(scheduled idle (JNum 1) (JNum 100))
       \<lparr>this := (this (scheduled idle (JNum 1) (JNum 100)))\<lparr>pending := False\<rparr>,
        invoked := [JNum 1]\<rparr>" "JNum 100" "JNum 2" "JNum 100"]
  by (simp add: ex_defs op_defs)

text \<open>
  The claim as the spec words it, for every \<open>work\<close> that returns without raising and without
  rescheduling, fails for a \<open>work\<close> that cancels its own action: \<open>work\<close> calls
  \<open>this.unsubscribe()\<close> and returns, \<open>pending\<close> is false, and after \<open>execute\<close> the action is
  closed, its \<open>work\<close> and scheduler are null, and a later \<open>schedule\<close> call changes nothing.
\<close>

theorem success_cancelling_work_counterexample:
  "\<not> closed (this (scheduled cancelling (JNum 1) (JNum 100))) \<and>
   scheduler (this (scheduled cancelling (JNum 1) (JNum 100))) = Some 0 \<and>
   id_t (this (scheduled cancelling (JNum 1) (JNum 100))) = JNum 1 \<and>
   fst (call_work (JNum 1) ((scheduled cancelling (JNum 1) (JNum 100))
       \<lparr>this := (this (scheduled cancelling (JNum 1) (JNum 100)))\<lparr>pending := False\<rparr>\<rparr>)) =
     Returns () \<and>
   \<not> pending (this (snd (call_work (JNum 1) ((scheduled cancelling (JNum 1) (JNum 100))
       \<lparr>this := (this (scheduled cancelling (JNum 1) (JNum 100)))\<lparr>pending := False\<rparr>\<rparr>)))) \<and>
   fst (execute (JNum 1) (JNum 100) (scheduled cancelling (JNum 1) (JNum 100))) =
     Returns (Plain JUndefined) \<and>
   closed (this (snd (execute (JNum 1) (JNum 100) (scheduled cancelling (JNum 1) (JNum 100))))) \<and>
   work (this (snd (execute (JNum 1) (JNum 100) (scheduled cancelling (JNum 1) (JNum 100))))) =
     None \<and>
   scheduler (this (snd (execute (JNum 1) (JNum 100)
     (scheduled cancelling (JNum 1) (JNum 100))))) = None \<and>
   id_t (this (snd (schedule (JNum 2) (JNum 100)
     (snd (execute (JNum 1) (JNum 100) (scheduled cancelling (JNum 1) (JNum 100))))))) =
     JUndefined \<and>
   state (this (snd (schedule (JNum 2) (JNum 100)
     (snd (execute (JNum 1) (JNum 100) (scheduled cancelling (JNum 1) (JNum 100))))))) =
     JNull"
  by (simp add: ex_defs op_defs)

text \<open>
  C10 (a work failure is never conflated with success). The action is not closed and
  has its scheduler. When \<open>work\<close> throws \<open>e\<close>, \<open>_execute\<close> and \<open>execute\<close> return a truthy
  value, \<open>e\<close> itself when it is truthy and a new Error of \<open>e\<close> otherwise; when \<open>work\<close>
  returns, both return \<open>undefined\<close>. What a non-null \<open>work\<close> throws is a plain value.
\<close>

theorem failure_never_success:
  assumes "\<not> closed (this w)" and "attached w"
      and "call_work st (w\<lparr>this := (this w)\<lparr>pending := False\<rparr>\<rparr>) = (c, w1)"
  shows "case c of
           Throws e \<Rightarrow>
             fst (u_execute st d (w\<lparr>this := (this w)\<lparr>pending := False\<rparr>\<rparr>)) =
               Returns (if truthy_ret e then e else NewError e) \<and>
             truthy_ret (if truthy_ret e then e else NewError e) \<and>
             fst (execute st d w) = Returns (if truthy_ret e then e else NewError e) \<and>
             (work (this w) \<noteq> None \<longrightarrow> (\<exists>v. e = Plain v))
         | Returns u \<Rightarrow>
             fst (u_execute st d (w\<lparr>this := (this w)\<lparr>pending := False\<rparr>\<rparr>)) =
               Returns (Plain JUndefined) \<and>
             \<not> truthy_ret (Plain JUndefined) \<and>
             fst (execute st d w) = Returns (Plain JUndefined)"
proof (cases c)
  case (Returns u)
  with assms(1,3) show ?thesis
    by (simp add: execute_def u_execute_def recycleAsyncId_def default_param_def)
next
  case (Throws e)
  let ?w0 = "w\<lparr>this := (this w)\<lparr>pending := False\<rparr>\<rparr>"
  from assms(2) have a0: "attached ?w0" by (simp add: attached_def)
  from call_work_attached[OF a0, of st] assms(3) have "attached w1" by simp
  from unsubscribe_attached[OF this] obtain w2 where w2: "unsubscribe w1 = (Returns (), w2)"
    by blast
  have plain: "\<exists>v. e = Plain v" if "work (this w) = Some f" for f
  proof -
    from a0 have "attached (?w0\<lparr>invoked := invoked w @ [st]\<rparr>)" by (simp add: attached_def)
    moreover from that assms(3) Throws
    have "run (f st) (?w0\<lparr>invoked := invoked w @ [st]\<rparr>) = (Throws e, w1)"
      by (simp add: call_work_def)
    ultimately show ?thesis by (rule run_throws_plain)
  qed
  have u: "u_execute st d ?w0 = (Returns (if truthy_ret e then e else NewError e), w2)"
    using assms(3) Throws w2 by (simp add: u_execute_def)
  have ex: "execute st d w = (Returns (if truthy_ret e then e else NewError e), w2)"
    using assms(1) u by (simp add: execute_def)
  from plain Throws show ?thesis by (auto simp: u ex)
qed

theorem failure_never_success_witness:
  "\<not> closed (this (scheduled failing (JNum 1) (JNum 50))) \<and>
   attached (scheduled failing (JNum 1) (JNum 50)) \<and>
   fst (call_work (JNum 1) ((scheduled failing (JNum 1) (JNum 50))
       \<lparr>this := (this (scheduled failing (JNum 1) (JNum 50)))\<lparr>pending := False\<rparr>\<rparr>)) =
     Throws (Plain (JNum 0)) \<and>
   \<not> truthy (JNum 0) \<and>
   fst (execute (JNum 1) (JNum 50) (scheduled failing (JNum 1) (JNum 50))) =
     Returns (NewError (Plain (JNum 0))) \<and>
   truthy_ret (NewError (Plain (JNum 0))) \<and>
   \<not> closed (this (scheduled idle (JNum 1) (JNum 50))) \<and>
   attached (scheduled idle (JNum 1) (JNum 50)) \<and>
   fst (call_work (JNum 1) ((scheduled idle (JNum 1) (JNum 50))
       \<lparr>this := (this (scheduled idle (JNum 1) (JNum 50)))\<lparr>pending := False\<rparr>\<rparr>)) =
     Returns () \<and>
   fst (execute (JNum 1) (JNum 50) (scheduled idle (JNum 1) (JNum 50))) =
     Returns (Plain JUndefined)"
  using failure_never_success[of "scheduled failing (JNum 1) (JNum 50)" "JNum 1"
      "Throws (Plain (JNum 0))"
      "snd (call_work (JNum 1) ((scheduled failing (JNum 1) (JNum 50))
       \<lparr>this := (this (scheduled failing (JNum 1) (JNum 50)))\<lparr>pending := False\<rparr>\<rparr>))" "JNum 50"]
    failure_never_success[of "scheduled idle (JNum 1) (JNum 50)" "JNum 1"
      "Returns ()"
      "snd (call_work (JNum 1) ((scheduled idle (JNum 1) (JNum 50))
       \<lparr>this := (this (scheduled idle (JNum 1) (JNum 50)))\<lparr>pending := False\<rparr>\<rparr>))" "JNum 50"]
  by (simp add: ex_defs op_defs attached_def)

end
